theory Spec2Isabelle
  imports Complex_Main "HOL-Library.Stream" "HOL-Library.Multiset"
begin

section \<open>Python strings\<close>

text \<open>
  A Python \<open>str\<close> is a sequence of Unicode code points, and \<open>len\<close> counts code points.
  A character is modelled by its code point, a string by the list of its code points.
  \<open>str\<close> turns an ASCII literal of the source into such a list.
\<close>

type_synonym pychar = nat

type_synonym pystr = "pychar list"

definition str :: "string \<Rightarrow> pystr" where
  "str cs = map of_char cs"

text \<open>
  The methods \<open>islower\<close>, \<open>isupper\<close>, \<open>isdigit\<close>, \<open>isalnum\<close>, \<open>lower\<close> and \<open>upper\<close> of
  \<open>str\<close> are decided by the Unicode tables of the Python runtime, which are not part of
  the program. On ASCII (code points below 128) the tables are written out here; beyond
  ASCII they are a parameter \<open>U\<close> of every function that consults them, so that each
  theorem below holds for whatever the runtime's tables say there.
  \<open>uc_lower\<close> and \<open>uc_upper\<close> act on whole strings, since the case mappings of Unicode
  can change the length of a string and can depend on the neighbouring characters.
\<close>

record unicode_db =
  uc_islower :: "pychar \<Rightarrow> bool"
  uc_isupper :: "pychar \<Rightarrow> bool"
  uc_isdigit :: "pychar \<Rightarrow> bool"
  uc_isalnum :: "pychar \<Rightarrow> bool"
  uc_lower :: "pystr \<Rightarrow> pystr"
  uc_upper :: "pystr \<Rightarrow> pystr"

definition isascii :: "pychar \<Rightarrow> bool" where
  "isascii c = (c < 128)"

definition islower :: "unicode_db \<Rightarrow> pychar \<Rightarrow> bool" where
  \<comment> \<open>ASCII: \<open>a\<close> (97) to \<open>z\<close> (122)\<close>
  "islower U c = (if isascii c then 97 \<le> c \<and> c \<le> 122 else uc_islower U c)"

definition isupper :: "unicode_db \<Rightarrow> pychar \<Rightarrow> bool" where
  \<comment> \<open>ASCII: \<open>A\<close> (65) to \<open>Z\<close> (90)\<close>
  "isupper U c = (if isascii c then 65 \<le> c \<and> c \<le> 90 else uc_isupper U c)"

definition isdigit :: "unicode_db \<Rightarrow> pychar \<Rightarrow> bool" where
  \<comment> \<open>ASCII: \<open>0\<close> (48) to \<open>9\<close> (57)\<close>
  "isdigit U c = (if isascii c then 48 \<le> c \<and> c \<le> 57 else uc_isdigit U c)"

definition isalnum :: "unicode_db \<Rightarrow> pychar \<Rightarrow> bool" where
  "isalnum U c =
     (if isascii c then (48 \<le> c \<and> c \<le> 57) \<or> (65 \<le> c \<and> c \<le> 90) \<or> (97 \<le> c \<and> c \<le> 122)
      else uc_isalnum U c)"

definition lower_ascii :: "pychar \<Rightarrow> pychar" where
  "lower_ascii c = (if 65 \<le> c \<and> c \<le> 90 then c + 32 else c)"

definition upper_ascii :: "pychar \<Rightarrow> pychar" where
  "upper_ascii c = (if 97 \<le> c \<and> c \<le> 122 then c - 32 else c)"

definition lower :: "unicode_db \<Rightarrow> pystr \<Rightarrow> pystr" where
  "lower U s = (if list_all isascii s then map lower_ascii s else uc_lower U s)"

definition upper :: "unicode_db \<Rightarrow> pystr \<Rightarrow> pystr" where
  "upper U s = (if list_all isascii s then map upper_ascii s else uc_upper U s)"

text \<open>
  A runtime whose tables know nothing beyond ASCII: the instance at which the
  definitions are evaluated on concrete ASCII inputs.
\<close>

definition ascii_db :: unicode_db where
  "ascii_db = \<lparr>uc_islower = (\<lambda>c. False), uc_isupper = (\<lambda>c. False),
                uc_isdigit = (\<lambda>c. False), uc_isalnum = (\<lambda>c. False),
                uc_lower = (\<lambda>s. s), uc_upper = (\<lambda>s. s)\<rparr>"

section \<open>Numbers\<close>

text \<open>
  A Python \<open>float\<close> is an IEEE 754 double. A finite double is a real number, so the
  values are modelled as reals and every operation rounds its exact result to a double:
  \<open>fl x\<close> is the double nearest to \<open>x\<close>, with 53 significant bits, a tie going to the even
  neighbour. For \<open>x\<close> between \<open>2 ^ e\<close> and \<open>2 ^ (e + 1)\<close> the doubles are the multiples of
  \<open>2 ^ (e - 52)\<close>. The range of the exponent is not modelled: the estimator only produces
  0 and numbers between 1 and \<open>2 ^ 70\<close>, far from overflow and from the subnormal numbers.
\<close>

definition round_half_even :: "real \<Rightarrow> int" where
  "round_half_even x =
     (let f = \<lfloor>x\<rfloor>; d = x - of_int f
      in if d < 1 / 2 then f
         else if 1 / 2 < d then f + 1
         else if even f then f else f + 1)"

definition fl :: "real \<Rightarrow> real" where
  "fl x =
     (if x = 0 then 0
      else let e = \<lfloor>log 2 \<bar>x\<bar>\<rfloor>; u = 2 powr (of_int e - 52)
           in of_int (round_half_even (x / u)) * u)"

text \<open>
  The operations of the runtime that \<open>calc_entropy\<close> uses, each correctly rounded:
  the conversion of an \<open>int\<close> operand to a \<open>float\<close>, the product of two floats,
  \<open>math.log2\<close> (called on a positive \<open>int\<close> only: the test \<^verbatim>\<open>pool == 0\<close> comes first), and
  \<open>round(x, ndigits)\<close>, which rounds the exact value of the double \<open>x\<close> to \<open>ndigits\<close>
  decimal places, a tie going to the even neighbour, and returns the double nearest to
  that decimal number.
\<close>

definition float_of_int :: "int \<Rightarrow> real" where
  "float_of_int n = fl (of_int n)"

definition fl_mult :: "real \<Rightarrow> real \<Rightarrow> real" where
  "fl_mult x y = fl (x * y)"

definition math_log2 :: "int \<Rightarrow> real" where
  "math_log2 n = fl (log 2 (of_int n))"

definition round_py :: "real \<Rightarrow> nat \<Rightarrow> real" where
  "round_py x ndigits = fl (of_int (round_half_even (x * 10 ^ ndigits)) / 10 ^ ndigits)"

section \<open>The analyzer\<close>

definition COMMONS :: "pystr set" where
  "COMMONS = {str ''123456'', str ''password'', str ''123456789'', str ''qwerty'',
              str ''abc123'', str ''111111'', str ''123123'', str ''iloveyou'',
              str ''password1'', str ''admin'', str ''letmein''}"

definition calc_entropy :: "unicode_db \<Rightarrow> pystr \<Rightarrow> real" where
  "calc_entropy U pw =
     (let pool0 = (0::int);
          pool1 = (if list_ex (islower U) pw then pool0 + 26 else pool0);
          pool2 = (if list_ex (isupper U) pw then pool1 + 26 else pool1);
          pool3 = (if list_ex (isdigit U) pw then pool2 + 10 else pool2);
          pool4 = (if list_ex (\<lambda>c. \<not> isalnum U c) pw then pool3 + 32 else pool3)
      in if pool4 = 0 \<or> length pw = 0 then 0
         else round_py (fl_mult (float_of_int (int (length pw))) (math_log2 pool4)) 2)"

text \<open>
  U+2014, the dash of the last suggestion, is the one character of the source's
  messages outside ASCII.
\<close>

definition em_dash :: pychar where
  "em_dash = 8212"

text \<open>
  The body of \<open>analyze_password\<close> after its two early returns has three parts, kept
  apart here: the score (from \<^verbatim>\<open>score = 0\<close> to the test of the entropy), the rating
  (under the comment \<^verbatim>\<open># rating\<close>) and the suggestions (under \<^verbatim>\<open># suggestions\<close>).
\<close>

definition analyze_score :: "unicode_db \<Rightarrow> pystr \<Rightarrow> real \<Rightarrow> int" where
  "analyze_score U pw entropy =
     (let score0 = (0::int);
          score1 = (if 8 \<le> length pw then score0 + 1 else score0);
          score2 = (if 12 \<le> length pw then score1 + 1 else score1);
          score3 = (if list_ex (islower U) pw then score2 + 1 else score2);
          score4 = (if list_ex (isupper U) pw then score3 + 1 else score3);
          score5 = (if list_ex (isdigit U) pw then score4 + 1 else score4);
          score6 = (if list_ex (\<lambda>c. \<not> isalnum U c) pw then score5 + 1 else score5);
          score7 = (if 60 < entropy then score6 + 1 else score6)
      in score7)"

definition analyze_rating :: "int \<Rightarrow> pystr" where
  "analyze_rating score =
     (if score \<le> 2 then str ''Weak''
      else if score \<le> 4 then str ''Medium''
      else if score \<le> 6 then str ''Strong''
      else str ''Very Strong'')"

definition analyze_suggestions :: "unicode_db \<Rightarrow> pystr \<Rightarrow> pystr list" where
  "analyze_suggestions U pw =
     (let sugg0 = [];
          sugg1 = (if length pw < 12
                   then sugg0 @ [str ''Increase length to 12+ characters''] else sugg0);
          sugg2 = (if \<not> list_ex (isupper U) pw
                   then sugg1 @ [str ''Add uppercase letters (A-Z)''] else sugg1);
          sugg3 = (if \<not> list_ex (islower U) pw
                   then sugg2 @ [str ''Add lowercase letters (a-z)''] else sugg2);
          sugg4 = (if \<not> list_ex (isdigit U) pw
                   then sugg3 @ [str ''Add digits (0-9)''] else sugg3);
          sugg5 = (if \<not> list_ex (\<lambda>c. \<not> isalnum U c) pw
                   then sugg4 @ [str ''Include symbols (e.g. ! @ # $ %)''] else sugg4);
          sugg6 = (if List.member pw (of_char CHR '' '')
                   then sugg5 @ [str ''Avoid spaces in passwords (or use predictable separators carefully)'']
                   else sugg5);
          sugg7 = (if sugg6 = []
                   then sugg6 @ [str ''Looks good '' @ [em_dash] @
                                 str '' consider using a passphrase for extra entropy'']
                   else sugg6)
      in sugg7)"

text \<open>The dictionary that \<open>analyze_password\<close> returns always has the same four keys.\<close>

record analysis =
  score :: int
  entropy :: real
  rating :: pystr
  suggestions :: "pystr list"

definition analyze_password :: "unicode_db \<Rightarrow> pystr \<Rightarrow> analysis" where
  "analyze_password U pw =
     (if pw = [] then
        \<lparr>score = 0, entropy = 0, rating = str ''Empty'',
         suggestions = [str ''Type a password'']\<rparr>
      else if lower U pw \<in> COMMONS then
        \<lparr>score = 0, entropy = calc_entropy U pw, rating = str ''Very Weak (common)'',
         suggestions = [str ''Use a unique password not in common lists'',
                        str ''Increase length'',
                        str ''Add symbols and mixed case'']\<rparr>
      else
        let entropy = calc_entropy U pw;
            score = analyze_score U pw entropy;
            rating = analyze_rating score;
            suggestions = analyze_suggestions U pw
        in \<lparr>score = score, entropy = entropy, rating = rating, suggestions = suggestions\<rparr>)"

section \<open>The generator\<close>

text \<open>
  \<open>random\<close> is a global generator in Python. Here its state is explicit: the stream of
  the numbers it will deliver, of which every draw consumes the first. \<open>randbelow n\<close>
  delivers a number below \<open>n\<close>; every stream is a possible run of the generator, and
  every outcome of a draw comes from some stream. As in the library, \<open>randbelow\<close> is
  meant for \<open>n > 0\<close> only: \<open>choice\<close> tests for the empty sequence before it draws, and
  \<open>shuffle\<close> draws below \<open>i + 1\<close> with \<open>i \<ge> 1\<close>.
\<close>

type_synonym rng = "nat stream"

datatype error = IndexError

definition randbelow :: "nat \<Rightarrow> rng \<Rightarrow> nat \<times> rng" where
  "randbelow n g = (shd g mod n, stl g)"

text \<open>\<open>random.choice\<close> raises \<open>IndexError\<close> on an empty sequence.\<close>

definition choice :: "'a list \<Rightarrow> rng \<Rightarrow> error + ('a \<times> rng)" where
  "choice seq g =
     (if seq = [] then Inl IndexError
      else let (i, g') = randbelow (length seq) g in Inr (seq ! i, g'))"

text \<open>
  \<open>random.shuffle\<close> of the standard library:
  \<^verbatim>\<open>
  for i in reversed(range(1, len(x))):
      j = randbelow(i + 1)
      x[i], x[j] = x[j], x[i]
  \<close>
  \<open>shuffle_loop k\<close> runs the iterations \<open>i = k, ..., 1\<close>.
\<close>

fun shuffle_loop :: "nat \<Rightarrow> 'a list \<Rightarrow> rng \<Rightarrow> 'a list \<times> rng" where
  "shuffle_loop 0 x g = (x, g)"
| "shuffle_loop (Suc k) x g =
     (let i = Suc k; (j, g') = randbelow (i + 1) g
      in shuffle_loop k (x[i := x ! j, j := x ! i]) g')"

definition shuffle :: "'a list \<Rightarrow> rng \<Rightarrow> 'a list \<times> rng" where
  "shuffle x g = shuffle_loop (length x - 1) x g"

definition lowers :: pystr where
  "lowers = str ''abcdefghijklmnopqrstuvwxyz''"

definition uppers :: "unicode_db \<Rightarrow> pystr" where
  "uppers U = upper U lowers"

definition digits :: pystr where
  "digits = str ''0123456789''"

definition symbols :: pystr where
  "symbols = str ''!@#$%^&*()-_=+[]{};:,.<>/?''"

definition allchars :: "unicode_db \<Rightarrow> pystr" where
  "allchars U = lowers @ uppers U @ digits @ symbols"

text \<open>The loop \<^verbatim>\<open>while len(pwd) < length: pwd.append(random.choice(allchars))\<close>.\<close>

function fill :: "int \<Rightarrow> pystr \<Rightarrow> pystr \<Rightarrow> rng \<Rightarrow> error + (pystr \<times> rng)" where
  "fill len chars pwd g =
     (if int (length pwd) < len then
        (case choice chars g of
           Inl e \<Rightarrow> Inl e
         | Inr (c, g') \<Rightarrow> fill len chars (pwd @ [c]) g')
      else Inr (pwd, g))"
  by pat_completeness auto
termination
  by (relation "measure (\<lambda>(len, chars, pwd, g). nat (len - int (length pwd)))") auto

declare fill.simps [simp del]

text \<open>
  \<open>generate_suggestion\<close> returns the password and the state in which it leaves the
  generator. The password is a list of one-character strings, joined at the end.
\<close>

definition generate_suggestion :: "unicode_db \<Rightarrow> int \<Rightarrow> rng \<Rightarrow> error + (pystr \<times> rng)" where
  "generate_suggestion U len g =
     (case choice lowers g of Inl e \<Rightarrow> Inl e | Inr (c1, g1) \<Rightarrow>
     (case choice (uppers U) g1 of Inl e \<Rightarrow> Inl e | Inr (c2, g2) \<Rightarrow>
     (case choice digits g2 of Inl e \<Rightarrow> Inl e | Inr (c3, g3) \<Rightarrow>
     (case choice symbols g3 of Inl e \<Rightarrow> Inl e | Inr (c4, g4) \<Rightarrow>
     (case fill len (allchars U) [c1, c2, c3, c4] g4 of Inl e \<Rightarrow> Inl e | Inr (pwd, g5) \<Rightarrow>
        Inr (shuffle pwd g5))))))"

section \<open>Partial sums of the logarithm\<close>

text \<open>
  The partial sums of the series \<open>- ln (1 - t) = t + t\<^sup>2 / 2 + t\<^sup>3 / 3 + \<dots>\<close>, from which
  rational bounds of \<open>log 2 36\<close> are computed.
\<close>

fun psum :: "real \<Rightarrow> nat \<Rightarrow> real" where
  "psum t 0 = 0"
| "psum t (Suc n) = psum t n + t ^ Suc n / real (Suc n)"

section \<open>The specification's wording\<close>

text \<open>
  The seven criteria of the score, in the order of the specification, and the number
  of them that a candidate satisfies.
\<close>

definition spec_criteria :: "unicode_db \<Rightarrow> pystr \<Rightarrow> bool list" where
  "spec_criteria U pw =
     [8 \<le> length pw, 12 \<le> length pw,
      list_ex (islower U) pw, list_ex (isupper U) pw, list_ex (isdigit U) pw,
      list_ex (\<lambda>c. \<not> isalnum U c) pw,
      60 < calc_entropy U pw]"

definition spec_score :: "unicode_db \<Rightarrow> pystr \<Rightarrow> int" where
  "spec_score U pw = int (length (filter (\<lambda>b. b) (spec_criteria U pw)))"

text \<open>The rating that the specification's table gives to a score; none outside 0 to 7.\<close>

definition spec_rating :: "int \<Rightarrow> pystr option" where
  "spec_rating s =
     (if 0 \<le> s \<and> s \<le> 2 then Some (str ''Weak'')
      else if 3 \<le> s \<and> s \<le> 4 then Some (str ''Medium'')
      else if 5 \<le> s \<and> s \<le> 6 then Some (str ''Strong'')
      else if s = 7 then Some (str ''Very Strong'')
      else None)"

text \<open>The size of the pool: the sum of the contributions of the classes present.\<close>

definition spec_pool :: "unicode_db \<Rightarrow> pystr \<Rightarrow> int" where
  "spec_pool U pw =
     (if list_ex (islower U) pw then 26 else 0) +
     (if list_ex (isupper U) pw then 26 else 0) +
     (if list_ex (isdigit U) pw then 10 else 0) +
     (if list_ex (\<lambda>c. \<not> isalnum U c) pw then 32 else 0)"

text \<open>
  The estimate as the specification writes it, in exact arithmetic, and the same
  product as the runtime computes it, in double arithmetic.
\<close>

definition spec_entropy :: "unicode_db \<Rightarrow> pystr \<Rightarrow> real" where
  "spec_entropy U pw = real (length pw) * log 2 (real_of_int (spec_pool U pw))"

definition float_entropy :: "unicode_db \<Rightarrow> pystr \<Rightarrow> real" where
  "float_entropy U pw = fl_mult (float_of_int (int (length pw))) (math_log2 (spec_pool U pw))"

text \<open>
  \<open>r\<close> is \<open>x\<close> rounded to 2 decimal places, whichever way a tie goes: a whole number of
  hundredths, at most half a hundredth away from \<open>x\<close>. A float can only hold the double
  nearest to such a number: \<open>v\<close> is the double of \<open>x\<close> rounded to 2 decimal places.
\<close>

definition rounded_2dp :: "real \<Rightarrow> real \<Rightarrow> bool" where
  "rounded_2dp x r = ((\<exists>k::int. r = of_int k / 100) \<and> \<bar>r - x\<bar> \<le> 1 / 200)"

definition double_of_rounded_2dp :: "real \<Rightarrow> real \<Rightarrow> bool" where
  "double_of_rounded_2dp x v = (\<exists>r. rounded_2dp x r \<and> v = fl r)"

text \<open>A candidate of 2981324 characters with lowercase letters and a digit: pool 36.\<close>

definition long_password :: pystr where
  "long_password = replicate 2981323 (of_char CHR ''a'') @ [of_char CHR ''1'']"

text \<open>
  The suggestions of the unmet criteria in the order of the specification, and the
  single recommendation of a passphrase when every criterion is met.
\<close>

definition spec_unmet :: "unicode_db \<Rightarrow> pystr \<Rightarrow> pystr list" where
  "spec_unmet U pw =
     (if length pw < 12 then [str ''Increase length to 12+ characters''] else []) @
     (if \<not> list_ex (isupper U) pw then [str ''Add uppercase letters (A-Z)''] else []) @
     (if \<not> list_ex (islower U) pw then [str ''Add lowercase letters (a-z)''] else []) @
     (if \<not> list_ex (isdigit U) pw then [str ''Add digits (0-9)''] else []) @
     (if \<not> list_ex (\<lambda>c. \<not> isalnum U c) pw then [str ''Include symbols (e.g. ! @ # $ %)''] else []) @
     (if List.member pw (of_char CHR '' '')
      then [str ''Avoid spaces in passwords (or use predictable separators carefully)'']
      else [])"

definition spec_suggestions :: "unicode_db \<Rightarrow> pystr \<Rightarrow> pystr list" where
  "spec_suggestions U pw =
     (if spec_unmet U pw = []
      then [str ''Looks good '' @ [em_dash] @ str '' consider using a passphrase for extra entropy'']
      else spec_unmet U pw)"

text \<open>\<open>c\<close> belongs to one of the four classes of which \<open>s\<close> already has a character.\<close>

definition class_present :: "unicode_db \<Rightarrow> pystr \<Rightarrow> pychar \<Rightarrow> bool" where
  "class_present U s c =
     ((islower U c \<and> list_ex (islower U) s) \<or>
      (isupper U c \<and> list_ex (isupper U) s) \<or>
      (isdigit U c \<and> list_ex (isdigit U) s) \<or>
      (\<not> isalnum U c \<and> list_ex (\<lambda>d. \<not> isalnum U d) s))"

section \<open>The analyzer: early returns\<close>

text \<open>
  C5. For the empty string the analyzer returns score 0, entropy 0.0, the rating
  "Empty" and a list of suggestions holding the single hint to type something.
\<close>

theorem analyze_password_empty:
  "analyze_password U [] =
     \<lparr>score = 0, entropy = 0, rating = str ''Empty'', suggestions = [str ''Type a password'']\<rparr>"
  by (simp add: analyze_password_def)

lemma lower_Nil: "lower U [] = []"
  by (simp add: lower_def)

lemma Nil_not_common: "[] \<notin> COMMONS"
  by (simp add: COMMONS_def str_def)

lemma common_nonempty: "lower U pw \<in> COMMONS \<Longrightarrow> pw \<noteq> []"
  using lower_Nil Nil_not_common by metis

text \<open>
  C3. For every string whose lower-cased form is in the set of common passwords, the
  analyzer returns score 0, the rating "Very Weak (common)", the entropy that
  \<open>calc_entropy\<close> computes, and the fixed list of three suggestions, whatever the length
  and the classes of the string.
\<close>

theorem analyze_password_common:
  assumes "lower U pw \<in> COMMONS"
  shows "analyze_password U pw =
           \<lparr>score = 0, entropy = calc_entropy U pw, rating = str ''Very Weak (common)'',
            suggestions = [str ''Use a unique password not in common lists'',
                           str ''Increase length'',
                           str ''Add symbols and mixed case'']\<rparr>"
  using assms common_nonempty [OF assms] by (simp add: analyze_password_def)

lemma PassWord_common: "lower ascii_db (str ''PassWord'') \<in> COMMONS"
  by (simp add: lower_def str_def COMMONS_def isascii_def lower_ascii_def)

theorem analyze_password_common_witness:
  "lower ascii_db (str ''PassWord'') \<in> COMMONS \<and>
   analyze_password ascii_db (str ''PassWord'') =
     \<lparr>score = 0, entropy = calc_entropy ascii_db (str ''PassWord''),
      rating = str ''Very Weak (common)'',
      suggestions = [str ''Use a unique password not in common lists'',
                     str ''Increase length'',
                     str ''Add symbols and mixed case'']\<rparr>"
  using PassWord_common analyze_password_common [OF PassWord_common] by (rule conjI)

section \<open>The analyzer: score and rating\<close>

lemma Troubador_nonempty: "str ''Tr0ub4dor&3'' \<noteq> []"
  by (simp add: str_def)

lemma Troubador_not_common: "lower ascii_db (str ''Tr0ub4dor&3'') \<notin> COMMONS"
  by (simp add: lower_def str_def COMMONS_def isascii_def lower_ascii_def)

lemma letmein1_nonempty: "str ''letmein1'' \<noteq> []"
  by (simp add: str_def)

lemma letmein1_not_common: "lower ascii_db (str ''letmein1'') \<notin> COMMONS"
  by (simp add: lower_def str_def COMMONS_def isascii_def lower_ascii_def)

text \<open>
  C1. For every non-empty string that is not a common password, the score is the
  number of the seven criteria that the string satisfies (length at least 8, length at
  least 12, a lowercase letter, an uppercase letter, a digit, a character that is not
  alphanumeric, entropy above 60 bits), and so lies between 0 and 7.
\<close>

theorem analyze_password_score:
  assumes "pw \<noteq> []" and "lower U pw \<notin> COMMONS"
  shows "score (analyze_password U pw) = spec_score U pw \<and>
         0 \<le> score (analyze_password U pw) \<and> score (analyze_password U pw) \<le> 7"
  using assms
  by (simp add: analyze_password_def analyze_score_def spec_score_def spec_criteria_def Let_def)

theorem analyze_password_score_witness:
  "str ''Tr0ub4dor&3'' \<noteq> [] \<and> lower ascii_db (str ''Tr0ub4dor&3'') \<notin> COMMONS \<and>
   score (analyze_password ascii_db (str ''Tr0ub4dor&3'')) = spec_score ascii_db (str ''Tr0ub4dor&3'') \<and>
   0 \<le> score (analyze_password ascii_db (str ''Tr0ub4dor&3'')) \<and>
   score (analyze_password ascii_db (str ''Tr0ub4dor&3'')) \<le> 7"
  using Troubador_nonempty Troubador_not_common
    analyze_password_score [OF Troubador_nonempty Troubador_not_common]
  by blast

text \<open>
  C2. For every non-empty string that is not a common password, the rating is the one
  that the table of the specification gives to the score: 0 to 2 "Weak", 3 to 4
  "Medium", 5 to 6 "Strong", 7 "Very Strong". It is a function of the score alone.
\<close>

theorem analyze_password_rating:
  assumes "pw \<noteq> []" and "lower U pw \<notin> COMMONS"
  shows "spec_rating (score (analyze_password U pw)) = Some (rating (analyze_password U pw))"
  using assms
  by (simp add: analyze_password_def analyze_score_def analyze_rating_def spec_rating_def Let_def)

theorem analyze_password_rating_witness:
  "str ''letmein1'' \<noteq> [] \<and> lower ascii_db (str ''letmein1'') \<notin> COMMONS \<and>
   spec_rating (score (analyze_password ascii_db (str ''letmein1''))) =
     Some (rating (analyze_password ascii_db (str ''letmein1'')))"
  using letmein1_nonempty letmein1_not_common
    analyze_password_rating [OF letmein1_nonempty letmein1_not_common]
  by blast

section \<open>The analyzer: suggestions\<close>

lemma append_chain:
  "(let s0 = [];
        s1 = (if b1 then s0 @ [m1] else s0);
        s2 = (if b2 then s1 @ [m2] else s1);
        s3 = (if b3 then s2 @ [m3] else s2);
        s4 = (if b4 then s3 @ [m4] else s3);
        s5 = (if b5 then s4 @ [m5] else s4);
        s6 = (if b6 then s5 @ [m6] else s5);
        s7 = (if s6 = [] then s6 @ [m7] else s6)
    in s7) =
   (if (if b1 then [m1] else []) @ (if b2 then [m2] else []) @ (if b3 then [m3] else []) @
       (if b4 then [m4] else []) @ (if b5 then [m5] else []) @ (if b6 then [m6] else []) = []
    then [m7]
    else (if b1 then [m1] else []) @ (if b2 then [m2] else []) @ (if b3 then [m3] else []) @
         (if b4 then [m4] else []) @ (if b5 then [m5] else []) @ (if b6 then [m6] else []))"
  by (cases b1; cases b2; cases b3; cases b4; cases b5; cases b6) simp_all

lemma analyze_suggestions_spec: "analyze_suggestions U pw = spec_suggestions U pw"
  unfolding analyze_suggestions_def spec_suggestions_def spec_unmet_def
  by (rule append_chain)

lemma analyze_suggestions_nonempty: "analyze_suggestions U pw \<noteq> []"
  unfolding analyze_suggestions_spec spec_suggestions_def by simp

lemma hunter2_nonempty: "str ''hunter 2'' \<noteq> []"
  by (simp add: str_def)

lemma hunter2_not_common: "lower ascii_db (str ''hunter 2'') \<notin> COMMONS"
  by (simp add: lower_def str_def COMMONS_def isascii_def lower_ascii_def)

text \<open>
  C6. For every non-empty string that is not a common password, the suggestions are
  those of the unmet criteria in the fixed order (length below 12, no uppercase, no
  lowercase, no digit, no symbol, a space in the string), or the single recommendation
  of a passphrase when none applies; and for every string whatever the list of
  suggestions is not empty.
\<close>

theorem analyze_password_suggestions:
  "(pw \<noteq> [] \<and> lower U pw \<notin> COMMONS \<longrightarrow>
      suggestions (analyze_password U pw) = spec_suggestions U pw) \<and>
   suggestions (analyze_password U pw) \<noteq> []"
  by (simp add: analyze_password_def Let_def analyze_suggestions_spec [symmetric]
        analyze_suggestions_nonempty)

theorem analyze_password_suggestions_witness:
  "(str ''hunter 2'' \<noteq> [] \<and> lower ascii_db (str ''hunter 2'') \<notin> COMMONS) \<and>
   suggestions (analyze_password ascii_db (str ''hunter 2'')) =
     spec_suggestions ascii_db (str ''hunter 2'') \<and>
   suggestions (analyze_password ascii_db (str ''hunter 2'')) \<noteq> []"
  using hunter2_nonempty hunter2_not_common
    analyze_password_suggestions [of "str ''hunter 2''" ascii_db]
  by blast

section \<open>Rounding to a double\<close>

lemma round_half_even_of_int: "round_half_even (of_int k) = k"
  by (simp add: round_half_even_def)

lemma round_half_even_near: "\<bar>of_int (round_half_even x) - x\<bar> \<le> 1 / 2"
proof -
  define d where "d = x - of_int \<lfloor>x\<rfloor>"
  have d: "0 \<le> d" "d < 1" unfolding d_def by linarith+
  have x: "x = of_int \<lfloor>x\<rfloor> + d" unfolding d_def by simp
  have "round_half_even x = \<lfloor>x\<rfloor> \<and> d \<le> 1 / 2 \<or> round_half_even x = \<lfloor>x\<rfloor> + 1 \<and> 1 / 2 \<le> d"
    unfolding round_half_even_def Let_def d_def by auto
  then show ?thesis
  proof
    assume "round_half_even x = \<lfloor>x\<rfloor> \<and> d \<le> 1 / 2"
    then show ?thesis using d x by (simp add: abs_if)
  next
    assume "round_half_even x = \<lfloor>x\<rfloor> + 1 \<and> 1 / 2 \<le> d"
    then show ?thesis using d x by (simp add: abs_if)
  qed
qed

lemma round_half_even_mono: "x \<le> y \<Longrightarrow> round_half_even x \<le> round_half_even y"
proof (cases "\<lfloor>x\<rfloor> = \<lfloor>y\<rfloor>")
  case True
  assume "x \<le> y"
  then show ?thesis unfolding round_half_even_def Let_def using True by auto
next
  case False
  assume xy: "x \<le> y"
  then have "\<lfloor>x\<rfloor> \<le> \<lfloor>y\<rfloor>" by (rule floor_mono)
  with False have lt: "\<lfloor>x\<rfloor> + 1 \<le> \<lfloor>y\<rfloor>" by simp
  have a: "round_half_even x \<le> \<lfloor>x\<rfloor> + 1" unfolding round_half_even_def Let_def by simp
  have b: "\<lfloor>y\<rfloor> \<le> round_half_even y" unfolding round_half_even_def Let_def by simp
  from a b lt show ?thesis by linarith
qed

lemma round_half_even_eqI:
  assumes "of_int k - 1 / 2 < y" and "y < of_int k + 1 / 2"
  shows "round_half_even y = k"
proof (cases "of_int k \<le> y")
  case True
  then have f: "\<lfloor>y\<rfloor> = k" using assms by linarith
  show ?thesis unfolding round_half_even_def Let_def f using assms by simp
next
  case False
  then have f: "\<lfloor>y\<rfloor> = k - 1" using assms by linarith
  show ?thesis unfolding round_half_even_def Let_def f using assms False by simp
qed

lemma round_half_even_nonneg: "0 \<le> x \<Longrightarrow> 0 \<le> round_half_even x"
  using round_half_even_mono [of 0 x] round_half_even_of_int [of 0] by simp

lemma binade:
  assumes "0 < x"
  shows "2 powr of_int \<lfloor>log 2 x\<rfloor> \<le> x" and "x < 2 powr (of_int \<lfloor>log 2 x\<rfloor> + 1)"
  using assms floor_log_eq_powr_iff [of x 2 "\<lfloor>log 2 x\<rfloor>"] by simp_all

lemma fl_pos_bounds:
  assumes "0 < x"
  shows "2 powr of_int \<lfloor>log 2 x\<rfloor> \<le> fl x" and "fl x \<le> 2 powr (of_int \<lfloor>log 2 x\<rfloor> + 1)"
proof -
  define e where "e = \<lfloor>log 2 x\<rfloor>"
  define u where "u = (2::real) powr (of_int e - 52)"
  have u: "0 < u" by (simp add: u_def)
  have b: "2 powr of_int e \<le> x" "x < 2 powr (of_int e + 1)"
    using binade [OF assms] by (simp_all add: e_def)
  have p1: "2 powr of_int e = 2 ^ 52 * u"
    unfolding u_def by (simp add: powr_diff)
  have p2: "2 powr (of_int e + 1) = 2 ^ 53 * u"
    unfolding u_def by (simp add: powr_diff powr_add)
  have f: "fl x = of_int (round_half_even (x / u)) * u"
    using assms by (simp add: fl_def Let_def e_def u_def)
  have "2 ^ 52 \<le> x / u" using b(1) u by (simp add: p1 pos_le_divide_eq)
  then have "round_half_even (of_int (2 ^ 52)) \<le> round_half_even (x / u)"
    by (intro round_half_even_mono) simp
  then have l: "2 ^ 52 \<le> round_half_even (x / u)" by (simp only: round_half_even_of_int)
  have "x / u \<le> 2 ^ 53" using b(2) u by (simp add: p2 pos_divide_le_eq)
  then have "round_half_even (x / u) \<le> round_half_even (of_int (2 ^ 53))"
    by (intro round_half_even_mono) simp
  then have h: "round_half_even (x / u) \<le> 2 ^ 53" by (simp only: round_half_even_of_int)
  have "2 ^ 52 * u \<le> of_int (round_half_even (x / u)) * u"
    using l u by (intro mult_right_mono) (simp_all add: of_int_le_iff [symmetric] del: of_int_le_iff)
  then show "2 powr of_int \<lfloor>log 2 x\<rfloor> \<le> fl x" by (simp add: f p1 e_def [symmetric])
  have "of_int (round_half_even (x / u)) * u \<le> 2 ^ 53 * u"
    using h u by (intro mult_right_mono) (simp_all add: of_int_le_iff [symmetric] del: of_int_le_iff)
  then show "fl x \<le> 2 powr (of_int \<lfloor>log 2 x\<rfloor> + 1)" by (simp add: f p2 e_def [symmetric])
qed

lemma fl_pos:
  assumes "0 < x"
  shows "0 < fl x"
proof -
  have "(0::real) < 2 powr of_int \<lfloor>log 2 x\<rfloor>" by simp
  then show ?thesis using fl_pos_bounds(1) [OF assms] by linarith
qed

lemma fl_nonneg: "0 \<le> x \<Longrightarrow> 0 \<le> fl x"
  using fl_pos [of x] by (cases "x = 0") (simp_all add: fl_def)

lemma fl_mono:
  assumes "0 \<le> x" and "x \<le> y"
  shows "fl x \<le> fl y"
proof (cases "x = 0")
  case True
  then show ?thesis using fl_nonneg [of y] assms by (simp add: fl_def)
next
  case False
  then have x: "0 < x" and y: "0 < y" using assms by simp_all
  define e where "e = \<lfloor>log 2 x\<rfloor>"
  define e' where "e' = \<lfloor>log 2 y\<rfloor>"
  have ee: "e \<le> e'" unfolding e_def e'_def using x assms(2) by (intro floor_mono) simp
  show ?thesis
  proof (cases "e = e'")
    case True
    define u where "u = (2::real) powr (of_int e - 52)"
    have u: "0 < u" by (simp add: u_def)
    have "x / u \<le> y / u" using assms(2) u by (simp add: divide_right_mono)
    then have "round_half_even (x / u) \<le> round_half_even (y / u)" by (rule round_half_even_mono)
    then have "of_int (round_half_even (x / u)) * u \<le> of_int (round_half_even (y / u)) * u"
      using u by (intro mult_right_mono) simp_all
    then show ?thesis
      using x y True by (simp add: fl_def Let_def e_def [symmetric] e'_def [symmetric] u_def)
  next
    case False
    then have "e + 1 \<le> e'" using ee by simp
    then have "(2::real) powr (of_int e + 1) \<le> 2 powr of_int e'"
      by (simp add: of_int_le_iff [symmetric] del: of_int_le_iff)
    moreover have "fl x \<le> 2 powr (of_int e + 1)" using fl_pos_bounds(2) [OF x] by (simp add: e_def)
    moreover have "2 powr of_int e' \<le> fl y" using fl_pos_bounds(1) [OF y] by (simp add: e'_def)
    ultimately show ?thesis by linarith
  qed
qed

text \<open>How to compute \<open>fl x\<close> once the power of 2 below \<open>x\<close> is known.\<close>

lemma fl_eval:
  assumes "2 ^ k \<le> x" and "x < 2 ^ Suc k"
  shows "fl x = of_int (round_half_even (x * 2 ^ 52 / 2 ^ k)) * 2 ^ k / 2 ^ 52"
proof -
  have x: "0 < x" using assms(1) by (meson less_le_trans zero_less_numeral zero_less_power)
  have "\<lfloor>log 2 x\<rfloor> = int k"
    using x assms by (subst floor_log_eq_powr_iff) (simp_all add: powr_realpow powr_add)
  then have "fl x = of_int (round_half_even (x / (2 powr (of_int (int k) - 52)))) *
                 2 powr (of_int (int k) - 52)"
    using x by (simp add: fl_def Let_def)
  also have "2 powr (of_int (int k) - 52) = (2::real) ^ k / 2 ^ 52"
    by (simp add: powr_diff powr_realpow)
  finally show ?thesis by simp
qed

section \<open>The entropy estimate\<close>

lemma calc_entropy_pool:
  "calc_entropy U pw =
     (if pw = [] \<or> spec_pool U pw = 0 then 0 else round_py (float_entropy U pw) 2)"
  by (simp add: calc_entropy_def spec_pool_def float_entropy_def Let_def)

lemma round_py_2dp: "double_of_rounded_2dp x (round_py x 2)"
proof -
  have "\<bar>of_int (round_half_even (x * 100)) - x * 100\<bar> \<le> 1 / 2"
    by (rule round_half_even_near)
  then have "\<bar>of_int (round_half_even (x * 100)) / 100 - x\<bar> \<le> 1 / 200"
    by (simp add: abs_if field_simps split: if_splits)
  then have "rounded_2dp x (of_int (round_half_even (x * 100)) / 100)"
    unfolding rounded_2dp_def by auto
  then show ?thesis
    unfolding double_of_rounded_2dp_def round_py_def by auto
qed

lemma round_py_mono:
  assumes "0 \<le> x" and "x \<le> y"
  shows "round_py x n \<le> round_py y n"
proof -
  have "0 \<le> x * 10 ^ n" using assms(1) by simp
  then have z: "0 \<le> round_half_even (x * 10 ^ n)" by (rule round_half_even_nonneg)
  have "x * 10 ^ n \<le> y * 10 ^ n" using assms(2) by (simp add: mult_right_mono)
  then have "round_half_even (x * 10 ^ n) \<le> round_half_even (y * 10 ^ n)"
    by (rule round_half_even_mono)
  then have "real_of_int (round_half_even (x * 10 ^ n)) / 10 ^ n
               \<le> real_of_int (round_half_even (y * 10 ^ n)) / 10 ^ n"
    by (simp add: divide_right_mono)
  moreover have "0 \<le> real_of_int (round_half_even (x * 10 ^ n)) / 10 ^ n" using z by simp
  ultimately show ?thesis unfolding round_py_def by (intro fl_mono)
qed

lemma round_py_nonneg: "0 \<le> round_py x n \<or> x < 0"
proof (cases "0 \<le> x")
  case True
  then have "0 \<le> round_half_even (x * 10 ^ n)" by (intro round_half_even_nonneg) simp
  then have "0 \<le> real_of_int (round_half_even (x * 10 ^ n)) / 10 ^ n" by simp
  then show ?thesis unfolding round_py_def by (intro disjI1 fl_nonneg)
next
  case False
  then show ?thesis by simp
qed

lemma spec_pool_append: "spec_pool U s \<le> spec_pool U (s @ [c])"
  by (simp add: spec_pool_def)

lemma spec_pool_pos: "spec_pool U s \<noteq> 0 \<Longrightarrow> 1 \<le> spec_pool U s"
  by (simp add: spec_pool_def split: if_splits)

lemma math_log2_nonneg: "1 \<le> n \<Longrightarrow> 0 \<le> math_log2 n"
  unfolding math_log2_def by (intro fl_nonneg) simp

lemma math_log2_mono: "1 \<le> m \<Longrightarrow> m \<le> n \<Longrightarrow> math_log2 m \<le> math_log2 n"
  unfolding math_log2_def by (intro fl_mono) simp_all

lemma float_of_int_nonneg: "0 \<le> n \<Longrightarrow> 0 \<le> float_of_int n"
  unfolding float_of_int_def by (intro fl_nonneg) simp

lemma float_of_int_mono: "0 \<le> m \<Longrightarrow> m \<le> n \<Longrightarrow> float_of_int m \<le> float_of_int n"
  unfolding float_of_int_def by (intro fl_mono) simp_all

lemma float_entropy_nonneg:
  assumes "1 \<le> spec_pool U pw"
  shows "0 \<le> float_entropy U pw"
  unfolding float_entropy_def fl_mult_def
  using assms by (intro fl_nonneg mult_nonneg_nonneg float_of_int_nonneg math_log2_nonneg) simp_all

lemma float_entropy_append_mono:
  assumes "1 \<le> spec_pool U s"
  shows "float_entropy U s \<le> float_entropy U (s @ [c])"
proof -
  have p: "spec_pool U s \<le> spec_pool U (s @ [c])" by (rule spec_pool_append)
  have n: "float_of_int (int (length s)) \<le> float_of_int (int (length (s @ [c])))"
    by (intro float_of_int_mono) simp_all
  have l: "math_log2 (spec_pool U s) \<le> math_log2 (spec_pool U (s @ [c]))"
    using assms p by (intro math_log2_mono)
  have "float_of_int (int (length s)) * math_log2 (spec_pool U s)
          \<le> float_of_int (int (length (s @ [c]))) * math_log2 (spec_pool U (s @ [c]))"
    using n l assms p
    by (intro mult_mono float_of_int_nonneg math_log2_nonneg) simp_all
  moreover have "0 \<le> float_of_int (int (length s)) * math_log2 (spec_pool U s)"
    using assms by (intro mult_nonneg_nonneg float_of_int_nonneg math_log2_nonneg) simp_all
  ultimately show ?thesis unfolding float_entropy_def fl_mult_def by (intro fl_mono)
qed

lemma calc_entropy_nonneg: "0 \<le> calc_entropy U pw"
proof (cases "pw = [] \<or> spec_pool U pw = 0")
  case True
  then show ?thesis by (simp add: calc_entropy_pool)
next
  case False
  then have "1 \<le> spec_pool U pw" using spec_pool_pos by blast
  then have "0 \<le> float_entropy U pw" by (rule float_entropy_nonneg)
  then have "0 \<le> round_py (float_entropy U pw) 2"
    using round_py_nonneg [of "float_entropy U pw" 2] by linarith
  then show ?thesis using False by (simp add: calc_entropy_pool)
qed

lemma calc_entropy_append_mono: "calc_entropy U s \<le> calc_entropy U (s @ [c])"
proof (cases "s = [] \<or> spec_pool U s = 0")
  case True
  then have "calc_entropy U s = 0" by (simp add: calc_entropy_pool)
  then show ?thesis using calc_entropy_nonneg [of U "s @ [c]"] by simp
next
  case False
  then have p1: "1 \<le> spec_pool U s" using spec_pool_pos by blast
  have p2: "spec_pool U s \<le> spec_pool U (s @ [c])" by (rule spec_pool_append)
  from p1 p2 have nz: "spec_pool U (s @ [c]) \<noteq> 0" by linarith
  have "round_py (float_entropy U s) 2 \<le> round_py (float_entropy U (s @ [c])) 2"
    using float_entropy_nonneg [OF p1] float_entropy_append_mono [OF p1] by (rule round_py_mono)
  then show ?thesis using False nz by (simp add: calc_entropy_pool)
qed

lemma abc_class_present: "class_present ascii_db (str ''abc'') (of_char CHR ''d'')"
  by (simp add: class_present_def str_def islower_def isascii_def)

text \<open>
  C7. For every string \<open>s\<close> and every character \<open>c\<close> of a class that \<open>s\<close> already has, the
  estimate of \<open>s\<close> with \<open>c\<close> appended is at least the estimate of \<open>s\<close>, rounding included.
\<close>

theorem calc_entropy_monotone:
  assumes "class_present U s c"
  shows "calc_entropy U s \<le> calc_entropy U (s @ [c])"
  by (rule calc_entropy_append_mono)

theorem calc_entropy_monotone_witness:
  "class_present ascii_db (str ''abc'') (of_char CHR ''d'') \<and>
   calc_entropy ascii_db (str ''abc'') \<le> calc_entropy ascii_db (str ''abc'' @ [of_char CHR ''d''])"
  using abc_class_present calc_entropy_monotone [OF abc_class_present] by (rule conjI)

section \<open>A rational enclosure of the logarithm of 36\<close>

lemma psum_sum: "psum t N = (\<Sum>n<N. t ^ Suc n / real (Suc n))"
  by (induction N) simp_all

lemma ln_series_summable:
  assumes "0 < t" and "t < 1"
  shows "summable (\<lambda>n. t ^ Suc n / real (Suc n))"
proof (rule summable_comparison_test' [where g = "\<lambda>n. t ^ n" and N = 0])
  show "summable (\<lambda>n. t ^ n)" using assms by simp
  fix n :: nat
  have "t ^ Suc n / real (Suc n) \<le> t ^ Suc n / 1"
    using assms by (intro divide_left_mono) simp_all
  also have "\<dots> \<le> t ^ n" using assms by (simp add: mult_left_le_one_le)
  finally show "norm (t ^ Suc n / real (Suc n)) \<le> t ^ n" using assms by simp
qed

lemma neg_ln_series:
  assumes "0 < t" and "t < 1"
  shows "- ln (1 - t) = (\<Sum>n. t ^ Suc n / real (Suc n))"
proof -
  have "ln (1 - t) = (\<Sum>n. (- 1) ^ n * (1 / real (n + 1)) * (1 - t - 1) ^ Suc n)"
    using assms by (intro ln_series) simp_all
  also have "(\<lambda>n. (- 1) ^ n * (1 / real (n + 1)) * (1 - t - 1) ^ Suc n) =
             (\<lambda>n. - (t ^ Suc n / real (Suc n)))"
  proof
    fix n
    have "(1 - t - 1) = - t" by simp
    then show "(- 1) ^ n * (1 / real (n + 1)) * (1 - t - 1) ^ Suc n = - (t ^ Suc n / real (Suc n))"
      by (cases "even n") simp_all
  qed
  also have "(\<Sum>n. - (t ^ Suc n / real (Suc n))) = - (\<Sum>n. t ^ Suc n / real (Suc n))"
    using ln_series_summable [OF assms] by (rule suminf_minus)
  finally show ?thesis by simp
qed

lemma neg_ln_lower:
  assumes "0 < t" and "t < 1"
  shows "psum t N \<le> - ln (1 - t)"
  unfolding psum_sum neg_ln_series [OF assms]
  using assms by (intro sum_le_suminf ln_series_summable) simp_all

lemma neg_ln_upper:
  assumes "0 < t" and "t < 1"
  shows "- ln (1 - t) \<le> psum t N + t ^ Suc N / (real (Suc N) * (1 - t))"
proof -
  let ?f = "\<lambda>n. t ^ Suc n / real (Suc n)"
  have s: "summable ?f" by (rule ln_series_summable [OF assms])
  have g: "summable (\<lambda>n. t ^ Suc N / real (Suc N) * t ^ n)"
    using assms by (intro summable_mult) simp
  have "(\<Sum>n. ?f (n + N)) \<le> (\<Sum>n. t ^ Suc N / real (Suc N) * t ^ n)"
  proof (rule suminf_le)
    fix n
    have "t ^ Suc (n + N) / real (Suc (n + N)) \<le> t ^ Suc (n + N) / real (Suc N)"
      using assms by (intro divide_left_mono) simp_all
    also have "\<dots> = t ^ Suc N / real (Suc N) * t ^ n"
      by (simp add: power_add)
    finally show "?f (n + N) \<le> t ^ Suc N / real (Suc N) * t ^ n" .
  next
    show "summable (\<lambda>n. ?f (n + N))" using s by (rule summable_ignore_initial_segment)
    show "summable (\<lambda>n. t ^ Suc N / real (Suc N) * t ^ n)" by (rule g)
  qed
  also have "\<dots> = t ^ Suc N / real (Suc N) * (\<Sum>n. t ^ n)"
    using assms by (intro suminf_mult) simp
  also have "(\<Sum>n. t ^ n) = 1 / (1 - t)"
    using assms by (intro suminf_geometric) simp
  finally have tail: "(\<Sum>n. ?f (n + N)) \<le> t ^ Suc N / (real (Suc N) * (1 - t))" by simp
  have "- ln (1 - t) = (\<Sum>n. ?f (n + N)) + (\<Sum>i<N. ?f i)"
    unfolding neg_ln_series [OF assms] using s by (rule suminf_split_initial_segment)
  then show ?thesis using tail by (simp add: psum_sum)
qed

lemma ln2_bounds:
  "psum (1 / 2) 60 \<le> ln 2"
  "ln 2 \<le> psum (1 / 2) 60 + (1 / 2) ^ Suc 60 / (real (Suc 60) * (1 - 1 / 2))"
proof -
  have e: "- ln (1 - 1 / 2 :: real) = ln 2"
    using ln_inverse [of "2::real"] by (simp add: inverse_eq_divide)
  show "psum (1 / 2) 60 \<le> ln 2"
    using neg_ln_lower [of "1 / 2" 60] unfolding e by simp
  show "ln 2 \<le> psum (1 / 2) 60 + (1 / 2) ^ Suc 60 / (real (Suc 60) * (1 - 1 / 2))"
    using neg_ln_upper [of "1 / 2" 60] unfolding e by simp
qed

lemma ln43_bounds:
  "psum (1 / 4) 30 \<le> ln (4 / 3)"
  "ln (4 / 3) \<le> psum (1 / 4) 30 + (1 / 4) ^ Suc 30 / (real (Suc 30) * (1 - 1 / 4))"
proof -
  have "ln (3 / 4 :: real) = - ln (4 / 3)"
    using ln_inverse [of "4 / 3 :: real"] by (simp add: inverse_eq_divide)
  then have e: "- ln (1 - 1 / 4 :: real) = ln (4 / 3)" by simp
  show "psum (1 / 4) 30 \<le> ln (4 / 3)"
    using neg_ln_lower [of "1 / 4" 30] unfolding e by simp
  show "ln (4 / 3) \<le> psum (1 / 4) 30 + (1 / 4) ^ Suc 30 / (real (Suc 30) * (1 - 1 / 4))"
    using neg_ln_upper [of "1 / 4" 30] unfolding e by simp
qed

lemma ln36: "ln 36 = 6 * ln 2 - 2 * ln (4 / 3 :: real)"
proof -
  have "(36::real) = 2 ^ 6 / (4 / 3) ^ 2" by (simp add: power2_eq_square)
  then have "ln (36::real) = ln (2 ^ 6 / (4 / 3) ^ 2)" by simp
  also have "\<dots> = ln (2 ^ 6) - ln ((4 / 3 :: real) ^ 2)" by (subst ln_div) simp_all
  also have "\<dots> = 6 * ln 2 - 2 * ln (4 / 3 :: real)"
    using ln_realpow [of "2::real" 6] ln_realpow [of "4 / 3 :: real" 2] by simp
  finally show ?thesis .
qed

lemma psum_lower_num:
  "2 * (psum (1 / 4) 30 + (1 / 4) ^ Suc 30 / (real (Suc 30) * (1 - 1 / 4)))
     \<le> (6 - 51699250014423123628 / 10 ^ 19) * psum (1 / 2) 60"
  by (simp add: eval_nat_numeral)

lemma psum_upper_num:
  "(6 - 51699250014423123630 / 10 ^ 19) *
     (psum (1 / 2) 60 + (1 / 2) ^ Suc 60 / (real (Suc 60) * (1 - 1 / 2)))
     \<le> 2 * psum (1 / 4) 30"
  by (simp add: eval_nat_numeral)

lemma log2_36_lower: "51699250014423123628 / 10 ^ 19 \<le> log 2 36"
proof -
  have p: "(0::real) < ln 2" by simp
  have "2 * ln (4 / 3 :: real)
          \<le> 2 * (psum (1 / 4) 30 + (1 / 4) ^ Suc 30 / (real (Suc 30) * (1 - 1 / 4)))"
    using ln43_bounds(2) by simp
  also have "\<dots> \<le> (6 - 51699250014423123628 / 10 ^ 19) * psum (1 / 2) 60"
    by (rule psum_lower_num)
  also have "\<dots> \<le> (6 - 51699250014423123628 / 10 ^ 19) * ln 2"
    using ln2_bounds(1) by (intro mult_left_mono) simp_all
  finally have "51699250014423123628 / 10 ^ 19 * ln 2 \<le> ln (36::real)"
    unfolding ln36 by (simp add: algebra_simps)
  then show ?thesis using p by (simp add: log_def pos_le_divide_eq)
qed

lemma log2_36_upper: "log 2 36 \<le> 51699250014423123630 / 10 ^ 19"
proof -
  have p: "(0::real) < ln 2" by simp
  have "(6 - 51699250014423123630 / 10 ^ 19) * ln 2
          \<le> (6 - 51699250014423123630 / 10 ^ 19) *
             (psum (1 / 2) 60 + (1 / 2) ^ Suc 60 / (real (Suc 60) * (1 - 1 / 2)))"
    using ln2_bounds(2) by (intro mult_left_mono) simp_all
  also have "\<dots> \<le> 2 * psum (1 / 4) 30" by (rule psum_upper_num)
  also have "\<dots> \<le> 2 * ln (4 / 3 :: real)" using ln43_bounds(1) by simp
  finally have "ln (36::real) \<le> 51699250014423123630 / 10 ^ 19 * ln 2"
    unfolding ln36 by (simp add: algebra_simps)
  then show ?thesis using p by (simp add: log_def pos_divide_le_eq)
qed

section \<open>The estimate of a long candidate\<close>

lemma math_log2_36: "math_log2 36 = 5820818077507252 / 2 ^ 50"
proof -
  have r: "round_half_even (log 2 36 * 2 ^ 52 / 2 ^ 2) = 5820818077507252"
    using log2_36_lower log2_36_upper by (intro round_half_even_eqI) simp_all
  have "math_log2 36 = fl (log 2 36)" by (simp add: math_log2_def)
  also have "\<dots> = of_int (round_half_even (log 2 36 * 2 ^ 52 / 2 ^ 2)) * 2 ^ 2 / 2 ^ 52"
    using log2_36_lower log2_36_upper by (intro fl_eval) simp_all
  also have "\<dots> = of_int 5820818077507252 * 2 ^ 2 / 2 ^ 52" by (simp only: r)
  also have "\<dots> = 5820818077507252 / 2 ^ 50" by simp
  finally show ?thesis .
qed

lemma long_password_length: "length long_password = 2981324"
  by (simp add: long_password_def)

lemma long_password_pool: "spec_pool ascii_db long_password = 36"
  by (simp add: spec_pool_def long_password_def islower_def isupper_def isdigit_def
        isalnum_def isascii_def list_ex_iff)

lemma long_password_nonempty: "long_password \<noteq> []"
  by (simp add: long_password_def)

lemma float_of_int_2981324: "float_of_int 2981324 = 2981324"
  unfolding float_of_int_def by (subst fl_eval [of 21]) (simp_all add: round_half_even_def)

lemma long_password_float_entropy:
  "float_entropy ascii_db long_password = 8274910275509944 / 2 ^ 29"
  unfolding float_entropy_def long_password_length long_password_pool fl_mult_def
  by (simp add: float_of_int_2981324 math_log2_36)
     (subst fl_eval [of 23], simp_all add: round_half_even_def)

lemma fl_15413221_48: "fl (1541322148 / 100) = 8274910272825590 / 2 ^ 29"
  by (subst fl_eval [of 23]) (simp_all add: round_half_even_def)

lemma fl_15413221_49: "fl (1541322149 / 100) = 8274910278194299 / 2 ^ 29"
  by (subst fl_eval [of 23]) (simp_all add: round_half_even_def)

lemma long_password_calc_entropy:
  "calc_entropy ascii_db long_password = fl (1541322148 / 100)"
proof -
  have "round_half_even (8274910275509944 / 2 ^ 29 * 10 ^ 2) = 1541322148"
    by (simp add: round_half_even_def)
  then have "round_py (float_entropy ascii_db long_password) 2 = fl (1541322148 / 100)"
    by (simp add: round_py_def long_password_float_entropy)
  then show ?thesis
    by (simp add: calc_entropy_pool long_password_pool long_password_nonempty)
qed

lemma long_password_spec_entropy: "1541322148 / 100 + 1 / 200 < spec_entropy ascii_db long_password"
  unfolding spec_entropy_def long_password_length long_password_pool
  using log2_36_lower by simp

text \<open>
  C4 claims that the estimate is the exact product of the length and the logarithm,
  rounded to 2 decimal places. On the candidate of 2981324 characters with pool 36 the
  exact product is above 15413221.485, so that it rounds to 15413221.49; the product of
  doubles falls just below 15413221.485, and the code returns the double of 15413221.48.
\<close>

theorem calc_entropy_exact_counterexample:
  "calc_entropy ascii_db long_password = fl (1541322148 / 100) \<and>
   \<not> double_of_rounded_2dp (spec_entropy ascii_db long_password)
        (calc_entropy ascii_db long_password)"
proof
  show v: "calc_entropy ascii_db long_password = fl (1541322148 / 100)"
    by (rule long_password_calc_entropy)
  show "\<not> double_of_rounded_2dp (spec_entropy ascii_db long_password)
            (calc_entropy ascii_db long_password)"
  proof
    assume "double_of_rounded_2dp (spec_entropy ascii_db long_password)
              (calc_entropy ascii_db long_password)"
    then obtain r where r: "rounded_2dp (spec_entropy ascii_db long_password) r"
      and c: "calc_entropy ascii_db long_password = fl r"
      unfolding double_of_rounded_2dp_def by blast
    from r obtain k :: int where k: "r = of_int k / 100"
      and n: "\<bar>r - spec_entropy ascii_db long_password\<bar> \<le> 1 / 200"
      unfolding rounded_2dp_def by blast
    from n long_password_spec_entropy have "1541322148 / 100 < r" by linarith
    then have "(1541322148::real) < of_int k" by (simp add: k)
    then have "1541322148 < k" by linarith
    then have "1541322149 \<le> k" by simp
    then have "(1541322149::real) \<le> of_int k" by linarith
    then have "1541322149 / 100 \<le> r" by (simp add: k)
    then have "fl (1541322149 / 100) \<le> fl r" by (intro fl_mono) simp_all
    moreover have "fl r = fl (1541322148 / 100)"
      unfolding c [symmetric] by (rule v)
    ultimately have "fl (1541322149 / 100) \<le> fl (1541322148 / 100)" by (simp only:)
    then have "(8274910278194299::real) / 2 ^ 29 \<le> 8274910272825590 / 2 ^ 29"
      by (simp only: fl_15413221_48 fl_15413221_49)
    then show False by simp
  qed
qed

lemma fl_5: "fl 5 = 5"
  by (subst fl_eval [of 2]) (simp_all add: round_half_even_def)

lemma fl_3: "fl 3 = 3"
  by (subst fl_eval [of 1]) (simp_all add: round_half_even_def)

lemma fl_15: "fl 15 = 15"
  by (subst fl_eval [of 3]) (simp_all add: round_half_even_def)

lemma log2_32: "log 2 32 = 5"
proof -
  have "log 2 32 = log 2 (2 ^ 5)" by simp
  also have "\<dots> = 5" by (simp only: log_pow_cancel)
  finally show ?thesis .
qed

lemma symbols3_pool: "spec_pool ascii_db (str ''!!!'') = 32"
  by (simp add: spec_pool_def str_def islower_def isupper_def isdigit_def isalnum_def isascii_def)

lemma symbols3_float_entropy: "float_entropy ascii_db (str ''!!!'') = 15"
proof -
  have "length (str ''!!!'') = 3" by (simp add: str_def)
  then show ?thesis
    by (simp add: float_entropy_def symbols3_pool float_of_int_def math_log2_def fl_mult_def
          log2_32 fl_3 fl_5 fl_15)
qed

text \<open>
  C4, as the code has it. For every string, the estimate is 0 when the string is empty
  or no class is present; otherwise it is the product of the length and of
  \<open>math.log2\<close> of the size of the pool, both taken in double arithmetic (the logarithm
  rounded to a double, the product rounded to a double), rounded to 2 decimal places and
  held as the nearest double. The pool adds 26 for a lowercase letter, 26 for an
  uppercase letter, 10 for a digit and 32 for a character that is not alphanumeric.
\<close>

theorem calc_entropy_float_spec:
  "(pw = [] \<or> spec_pool U pw = 0 \<longrightarrow> calc_entropy U pw = 0) \<and>
   (pw \<noteq> [] \<and> spec_pool U pw \<noteq> 0 \<longrightarrow>
      calc_entropy U pw = round_py (float_entropy U pw) 2 \<and>
      double_of_rounded_2dp (float_entropy U pw) (calc_entropy U pw))"
  by (simp add: calc_entropy_pool round_py_2dp)

theorem calc_entropy_float_spec_witness:
  "calc_entropy ascii_db [] = 0 \<and>
   (str ''!!!'' \<noteq> [] \<and> spec_pool ascii_db (str ''!!!'') \<noteq> 0) \<and>
   calc_entropy ascii_db (str ''!!!'') = 15"
proof -
  have e: "calc_entropy ascii_db [] = 0"
    using calc_entropy_float_spec [of "[]" ascii_db] by simp
  have h: "str ''!!!'' \<noteq> [] \<and> spec_pool ascii_db (str ''!!!'') \<noteq> 0"
    by (simp add: symbols3_pool) (simp add: str_def)
  have "calc_entropy ascii_db (str ''!!!'') = round_py (float_entropy ascii_db (str ''!!!'')) 2"
    using h calc_entropy_float_spec [of "str ''!!!''" ascii_db] by blast
  also have "\<dots> = 15"
    by (simp add: symbols3_float_entropy round_py_def round_half_even_def fl_15)
  finally show ?thesis using e h by blast
qed

section \<open>The generator: what it returns\<close>

lemma uppers_eq: "uppers U = str ''ABCDEFGHIJKLMNOPQRSTUVWXYZ''"
  by (simp add: uppers_def upper_def lowers_def str_def isascii_def upper_ascii_def)

lemma lowers_class: "c \<in> set lowers \<Longrightarrow> islower U c \<and> \<not> isupper U c \<and> \<not> isdigit U c \<and> isalnum U c"
  by (auto simp add: lowers_def str_def islower_def isupper_def isdigit_def isalnum_def isascii_def)

lemma uppers_class: "c \<in> set (uppers U) \<Longrightarrow> \<not> islower U c \<and> isupper U c \<and> \<not> isdigit U c \<and> isalnum U c"
  unfolding uppers_eq
  by (auto simp add: str_def islower_def isupper_def isdigit_def isalnum_def isascii_def)

lemma digits_class: "c \<in> set digits \<Longrightarrow> \<not> islower U c \<and> \<not> isupper U c \<and> isdigit U c \<and> isalnum U c"
  by (auto simp add: digits_def str_def islower_def isupper_def isdigit_def isalnum_def isascii_def)

lemma symbols_class: "c \<in> set symbols \<Longrightarrow> \<not> islower U c \<and> \<not> isupper U c \<and> \<not> isdigit U c \<and> \<not> isalnum U c"
  by (auto simp add: symbols_def str_def islower_def isupper_def isdigit_def isalnum_def isascii_def)

lemma choice_ok:
  assumes "seq \<noteq> []"
  shows "\<exists>c. choice seq g = Inr (c, stl g) \<and> c \<in> set seq"
  using assms by (simp add: choice_def randbelow_def)

lemma fill_ok:
  assumes "chars \<noteq> []"
  shows "\<exists>ext g'. fill len chars pwd g = Inr (pwd @ ext, g') \<and>
           int (length (pwd @ ext)) = max len (int (length pwd))"
  using assms
proof (induction len chars pwd g rule: fill.induct)
  case (1 len chars pwd g)
  show ?case
  proof (cases "int (length pwd) < len")
    case False
    then show ?thesis by (subst fill.simps) simp
  next
    case True
    from choice_ok [OF "1.prems"] obtain c where c: "choice chars g = Inr (c, stl g)" by blast
    from "1.IH" [OF True c refl "1.prems"]
    obtain ext g' where r: "fill len chars (pwd @ [c]) (stl g) = Inr ((pwd @ [c]) @ ext, g')"
      and l: "int (length ((pwd @ [c]) @ ext)) = max len (int (length (pwd @ [c])))" by blast
    have "fill len chars pwd g = Inr (pwd @ (c # ext), g')"
      using True c r by (subst fill.simps) simp
    moreover have "int (length (pwd @ (c # ext))) = max len (int (length pwd))"
      using l True by simp
    ultimately show ?thesis by blast
  qed
qed

lemma shuffle_loop_mset:
  "k < length x \<Longrightarrow> mset (fst (shuffle_loop k x g)) = mset x"
proof (induction k arbitrary: x g)
  case 0
  then show ?case by simp
next
  case (Suc k)
  define j where "j = shd g mod (Suc k + 1)"
  have "j < Suc k + 1" unfolding j_def by simp
  then have j: "j < length x" using Suc.prems by linarith
  have sw: "mset (x[Suc k := x ! j, j := x ! Suc k]) = mset x"
    using mset_swap [OF j Suc.prems] by simp
  have "k < length (x[Suc k := x ! j, j := x ! Suc k])" using Suc.prems by simp
  from Suc.IH [OF this] sw show ?case
    by (simp add: randbelow_def j_def Let_def)
qed

lemma shuffle_mset: "mset (fst (shuffle x g)) = mset x"
proof (cases "x = []")
  case True
  then show ?thesis by (simp add: shuffle_def)
next
  case False
  then have "length x - 1 < length x" by (cases x) simp_all
  then show ?thesis unfolding shuffle_def by (rule shuffle_loop_mset)
qed

lemma shuffle_set: "set (fst (shuffle x g)) = set x"
  using shuffle_mset [of x g] by (rule mset_eq_setD)

lemma shuffle_length: "length (fst (shuffle x g)) = length x"
  using shuffle_mset [of x g] by (rule mset_eq_length)

lemma shuffle_filter: "length (filter P (fst (shuffle x g))) = length (filter P x)"
proof -
  have "mset (filter P (fst (shuffle x g))) = mset (filter P x)"
    by (simp only: mset_filter shuffle_mset)
  then show ?thesis by (rule mset_eq_length)
qed

lemma lowers_nonempty: "lowers \<noteq> []"
  by (simp add: lowers_def str_def)
lemma uppers_nonempty: "uppers U \<noteq> []"
  by (simp add: uppers_eq str_def)
lemma digits_nonempty: "digits \<noteq> []"
  by (simp add: digits_def str_def)
lemma symbols_nonempty: "symbols \<noteq> []"
  by (simp add: symbols_def str_def)
lemma allchars_nonempty: "allchars U \<noteq> []"
  by (simp add: allchars_def lowers_nonempty)

lemma generate_suggestion_shape:
  "\<exists>c1 c2 c3 c4 ext g5.
      c1 \<in> set lowers \<and> c2 \<in> set (uppers U) \<and> c3 \<in> set digits \<and> c4 \<in> set symbols \<and>
      generate_suggestion U len g = Inr (shuffle ([c1, c2, c3, c4] @ ext) g5) \<and>
      int (length ([c1, c2, c3, c4] @ ext)) = max len 4"
proof -
  obtain c1 where c1: "choice lowers g = Inr (c1, stl g)" "c1 \<in> set lowers"
    using choice_ok [OF lowers_nonempty] by blast
  obtain c2 where c2: "choice (uppers U) (stl g) = Inr (c2, stl (stl g))" "c2 \<in> set (uppers U)"
    using choice_ok [OF uppers_nonempty] by blast
  obtain c3 where c3: "choice digits (stl (stl g)) = Inr (c3, stl (stl (stl g)))" "c3 \<in> set digits"
    using choice_ok [OF digits_nonempty] by blast
  obtain c4 where c4: "choice symbols (stl (stl (stl g))) = Inr (c4, stl (stl (stl (stl g))))"
      "c4 \<in> set symbols"
    using choice_ok [OF symbols_nonempty] by blast
  obtain ext g5 where f: "fill len (allchars U) [c1, c2, c3, c4] (stl (stl (stl (stl g)))) =
        Inr ([c1, c2, c3, c4] @ ext, g5)"
      and l: "int (length ([c1, c2, c3, c4] @ ext)) = max len (int (length [c1, c2, c3, c4]))"
    using fill_ok [OF allchars_nonempty] by blast
  have "generate_suggestion U len g = Inr (shuffle ([c1, c2, c3, c4] @ ext) g5)"
    unfolding generate_suggestion_def by (simp only: c1 c2 c3 c4 f sum.case prod.case)
  moreover have "int (length ([c1, c2, c3, c4] @ ext)) = max len 4" using l by simp
  ultimately show ?thesis using c1(2) c2(2) c3(2) c4(2) by blast
qed

lemma generate_suggestion_total:
  "\<exists>pwd g'. generate_suggestion U len g = Inr (pwd, g') \<and> int (length pwd) = max len 4 \<and>
           list_ex (islower U) pwd \<and> list_ex (isupper U) pwd \<and> list_ex (isdigit U) pwd \<and>
           list_ex (List.member symbols) pwd"
proof -
  from generate_suggestion_shape [of U len g]
  obtain c1 c2 c3 c4 ext g5 where
    c: "c1 \<in> set lowers" "c2 \<in> set (uppers U)" "c3 \<in> set digits" "c4 \<in> set symbols"
    and r: "generate_suggestion U len g = Inr (shuffle ([c1, c2, c3, c4] @ ext) g5)"
    and l: "int (length ([c1, c2, c3, c4] @ ext)) = max len 4" by blast
  define p where "p = [c1, c2, c3, c4] @ ext"
  define pwd where "pwd = fst (shuffle p g5)"
  define g' where "g' = snd (shuffle p g5)"
  have r': "generate_suggestion U len g = Inr (pwd, g')"
    using r by (simp add: p_def pwd_def g'_def)
  have s: "set pwd = set p" unfolding pwd_def by (rule shuffle_set)
  have "int (length pwd) = max len 4" using l by (simp add: pwd_def shuffle_length p_def)
  moreover have "list_ex (islower U) pwd"
    using c(1) lowers_class [of c1 U] s by (auto simp: list_ex_iff p_def)
  moreover have "list_ex (isupper U) pwd"
    using c(2) uppers_class [of c2 U] s by (auto simp: list_ex_iff p_def)
  moreover have "list_ex (isdigit U) pwd"
    using c(3) digits_class [of c3 U] s by (auto simp: list_ex_iff p_def)
  moreover have "list_ex (List.member symbols) pwd"
    using c(4) s by (auto simp: list_ex_iff p_def)
  ultimately show ?thesis using r' by blast
qed

text \<open>
  C8. For every requested length \<open>N\<close> of at least 4 and every run of the random
  generator, \<open>generate_suggestion\<close> returns a string of exactly \<open>N\<close> characters that has a
  lowercase letter, an uppercase letter, a digit and a symbol of its fixed set.
\<close>

theorem generate_suggestion_length_classes:
  assumes "4 \<le> len"
  shows "\<exists>pwd g'. generate_suggestion U len g = Inr (pwd, g') \<and> int (length pwd) = len \<and>
           list_ex (islower U) pwd \<and> list_ex (isupper U) pwd \<and> list_ex (isdigit U) pwd \<and>
           list_ex (List.member symbols) pwd"
  using generate_suggestion_total [of U len g] assms by (simp add: max_def)

theorem generate_suggestion_length_classes_witness:
  "(4::int) \<le> 16 \<and>
   (\<exists>pwd g'. generate_suggestion ascii_db 16 (sconst 0) = Inr (pwd, g') \<and> int (length pwd) = 16 \<and>
      list_ex (islower ascii_db) pwd \<and> list_ex (isupper ascii_db) pwd \<and>
      list_ex (isdigit ascii_db) pwd \<and> list_ex (List.member symbols) pwd)"
proof -
  have h: "(4::int) \<le> 16" by simp
  show ?thesis
    using h generate_suggestion_length_classes [OF h, of ascii_db "sconst 0"] by (rule conjI)
qed

section \<open>The generator: requested lengths below 4\<close>

text \<open>
  The run in which every draw delivers 0: the four choices take the first character of
  each class, and every exchange of the shuffle is with the first position.
\<close>

lemma fill_done: "\<not> int (length pwd) < len \<Longrightarrow> fill len chars pwd g = Inr (pwd, g)"
  by (subst fill.simps) simp

lemma picks:
  "choice lowers (sconst 0) = Inr (of_char CHR ''a'', sconst 0)"
  "choice (uppers U) (sconst 0) = Inr (of_char CHR ''A'', sconst 0)"
  "choice digits (sconst 0) = Inr (of_char CHR ''0'', sconst 0)"
  "choice symbols (sconst 0) = Inr (of_char CHR ''!'', sconst 0)"
  by (simp_all add: choice_def randbelow_def lowers_def uppers_eq digits_def symbols_def str_def)

lemma shuffle4: "shuffle [a, b, c, d] (sconst 0) = ([b, c, d, a], sconst 0)"
  by (simp add: shuffle_def randbelow_def numeral_3_eq_3 Let_def)

text \<open>
  C9 claims that a requested length below 4 is answered by an explicit error. The code
  has no check of the length: asked for 3 characters, on the run of draws above, it
  returns the 4 characters \<open>A0!a\<close> and raises nothing.
\<close>

theorem generate_suggestion_rejects_counterexample:
  "generate_suggestion ascii_db 3 (sconst 0) = Inr (str ''A0!a'', sconst 0)"
  by (simp add: generate_suggestion_def picks fill_done shuffle4 str_def)

text \<open>
  C9, as the code has it. For every requested length below 4 and every run of the
  random generator, \<open>generate_suggestion\<close> signals no error: it returns a password of 4
  characters, more than requested, that has a lowercase letter, an uppercase letter, a
  digit and a symbol of the fixed set.
\<close>

theorem generate_suggestion_no_error:
  assumes "len < 4"
  shows "(\<forall>e. generate_suggestion U len g \<noteq> Inl e) \<and>
         (\<exists>pwd g'. generate_suggestion U len g = Inr (pwd, g') \<and> length pwd = 4 \<and>
            len < int (length pwd) \<and>
            list_ex (islower U) pwd \<and> list_ex (isupper U) pwd \<and> list_ex (isdigit U) pwd \<and>
            list_ex (List.member symbols) pwd)"
proof -
  from generate_suggestion_total [of U len g]
  obtain pwd g' where r: "generate_suggestion U len g = Inr (pwd, g')"
    and l: "int (length pwd) = max len 4"
    and c: "list_ex (islower U) pwd" "list_ex (isupper U) pwd" "list_ex (isdigit U) pwd"
      "list_ex (List.member symbols) pwd" by blast
  from l assms have l4: "length pwd = 4" by (simp add: max_def)
  have "\<forall>e. generate_suggestion U len g \<noteq> Inl e" using r by simp
  moreover have "len < int (length pwd)" using l4 assms by simp
  ultimately show ?thesis using r l4 c by blast
qed

theorem generate_suggestion_no_error_witness:
  "(0::int) < 4 \<and> (\<forall>e. generate_suggestion ascii_db 0 (sconst 0) \<noteq> Inl e) \<and>
         (\<exists>pwd g'. generate_suggestion ascii_db 0 (sconst 0) = Inr (pwd, g') \<and> length pwd = 4 \<and>
            0 < int (length pwd) \<and>
            list_ex (islower ascii_db) pwd \<and> list_ex (isupper ascii_db) pwd \<and>
            list_ex (isdigit ascii_db) pwd \<and> list_ex (List.member symbols) pwd)"
proof -
  have h: "(0::int) < 4" by simp
  show ?thesis
    using h generate_suggestion_no_error [OF h, of ascii_db "sconst 0"] by (rule conjI)
qed

text \<open>
  C10. For every requested length below 4, zero and negative lengths included, and
  every run of the random generator, \<open>generate_suggestion\<close> raises no error and returns a
  string of exactly 4 characters, of which one is a lowercase letter, one an uppercase
  letter, one a digit and one a symbol: the four guaranteed characters are there before
  the padding loop is reached.
\<close>

theorem generate_suggestion_short:
  assumes "len < 4"
  shows "\<exists>pwd g'. generate_suggestion U len g = Inr (pwd, g') \<and> length pwd = 4 \<and>
           length (filter (islower U) pwd) = 1 \<and> length (filter (isupper U) pwd) = 1 \<and>
           length (filter (isdigit U) pwd) = 1 \<and> length (filter (List.member symbols) pwd) = 1"
proof -
  from generate_suggestion_shape [of U len g]
  obtain c1 c2 c3 c4 ext g5 where
    c: "c1 \<in> set lowers" "c2 \<in> set (uppers U)" "c3 \<in> set digits" "c4 \<in> set symbols"
    and r: "generate_suggestion U len g = Inr (shuffle ([c1, c2, c3, c4] @ ext) g5)"
    and l: "int (length ([c1, c2, c3, c4] @ ext)) = max len 4" by blast
  from l assms have ext: "ext = []" by (simp add: max_def)
  define p where "p = [c1, c2, c3, c4]"
  define pwd where "pwd = fst (shuffle p g5)"
  define g' where "g' = snd (shuffle p g5)"
  have r': "generate_suggestion U len g = Inr (pwd, g')"
    using r ext by (simp add: p_def pwd_def g'_def)
  note cl = lowers_class [OF c(1), of U] uppers_class [OF c(2)] digits_class [OF c(3), of U]
    symbols_class [OF c(4), of U]
  have ns: "c1 \<notin> set symbols" "c2 \<notin> set symbols" "c3 \<notin> set symbols"
    using cl symbols_class [of _ U] by blast+
  have "length pwd = 4" by (simp add: pwd_def shuffle_length p_def)
  moreover have "length (filter (islower U) pwd) = 1"
    unfolding pwd_def shuffle_filter using cl by (simp add: p_def)
  moreover have "length (filter (isupper U) pwd) = 1"
    unfolding pwd_def shuffle_filter using cl by (simp add: p_def)
  moreover have "length (filter (isdigit U) pwd) = 1"
    unfolding pwd_def shuffle_filter using cl by (simp add: p_def)
  moreover have "length (filter (List.member symbols) pwd) = 1"
    unfolding pwd_def shuffle_filter using c(4) ns by (simp add: p_def)
  ultimately show ?thesis using r' by blast
qed

theorem generate_suggestion_short_witness:
  "(- 1::int) < 4 \<and>
   (\<exists>pwd g'. generate_suggestion ascii_db (- 1) (sconst 0) = Inr (pwd, g') \<and> length pwd = 4 \<and>
      length (filter (islower ascii_db) pwd) = 1 \<and> length (filter (isupper ascii_db) pwd) = 1 \<and>
      length (filter (isdigit ascii_db) pwd) = 1 \<and> length (filter (List.member symbols) pwd) = 1)"
proof -
  have h: "(- 1::int) < 4" by simp
  show ?thesis
    using h generate_suggestion_short [OF h, of ascii_db "sconst 0"] by (rule conjI)
qed

end
